theory Spec2Isabelle
  imports Complex_Main
begin

section \<open>LibreKPI: the invariant-bearing parts of \<open>librekpi/model.py\<close>\<close>

text \<open>
  The module is written for Python 3: \<open>str\<close> is the text type (the code tests
  \<open>isinstance(password, str)\<close> before calling \<open>.encode("UTF-8")\<close>, and turns a
  \<open>str\<close> salt into \<open>bytes\<close> the same way). So a \<open>str\<close> is a sequence of code
  points, \<open>bytes\<close> is a sequence of octets, \<open>str(b)\<close> of a bytes object is its
  printed form \<open>b'...'\<close>, and \<open>/\<close> on two integers is true division.

  Python integers are \<open>int\<close>; an octet is a \<open>char\<close>; a code point is an \<open>int\<close>.
  Every exception the code can raise is a value of \<open>error\<close>, and an operation that
  assigns to an attribute returns the user after it next to its result.
\<close>

type_synonym pystr = "int list"
type_synonym bytes = "char list"

datatype error =
    TypeError
  | ValueError
  | UnicodeEncodeError
  | BinasciiError
  | OverflowError
  | ZeroDivisionError
  | JSONDecodeError

text \<open>A text literal of the source, as a \<open>str\<close>.\<close>

definition text_of :: "string \<Rightarrow> pystr" where
  "text_of s = map of_char s"

subsection \<open>\<open>str.encode("UTF-8")\<close>\<close>

text \<open>
  One code point to its UTF-8 octets. The surrogates U+D800..U+DFFF have no UTF-8 form:
  Python raises \<open>UnicodeEncodeError\<close>. A \<open>str\<close> holds no value outside
  0..0x10FFFF; the encoder rejects such a value too.
\<close>

definition utf8_char :: "int \<Rightarrow> error + bytes" where
  "utf8_char c =
     (if c < 0 \<or> 0x10FFFF < c then Inl UnicodeEncodeError
      else if c < 0x80 then Inr [char_of c]
      else if c < 0x800 then
        Inr [char_of (0xC0 + c div 64), char_of (0x80 + c mod 64)]
      else if 0xD800 \<le> c \<and> c \<le> 0xDFFF then Inl UnicodeEncodeError
      else if c < 0x10000 then
        Inr [char_of (0xE0 + c div 4096), char_of (0x80 + c div 64 mod 64),
             char_of (0x80 + c mod 64)]
      else
        Inr [char_of (0xF0 + c div 262144), char_of (0x80 + c div 4096 mod 64),
             char_of (0x80 + c div 64 mod 64), char_of (0x80 + c mod 64)])"

fun utf8_encode :: "pystr \<Rightarrow> error + bytes" where
  "utf8_encode [] = Inr []"
| "utf8_encode (c # cs) =
     (case utf8_char c of
        Inl e \<Rightarrow> Inl e
      | Inr b \<Rightarrow> (case utf8_encode cs of Inl e \<Rightarrow> Inl e | Inr bs \<Rightarrow> Inr (b @ bs)))"

subsection \<open>\<open>base64.b64encode\<close>\<close>

definition b64_alphabet :: string where
  "b64_alphabet = ''ABCDEFGHIJKLMNOPQRSTUVWXYZabcdefghijklmnopqrstuvwxyz0123456789+/''"

definition b64_chr :: "int \<Rightarrow> char" where
  "b64_chr n = b64_alphabet ! nat n"

fun b64encode :: "bytes \<Rightarrow> bytes" where
  "b64encode (a # b # c # rest) =
     (let x = of_char a; y = of_char b; z = of_char c in
        b64_chr (x div 4) # b64_chr (x mod 4 * 16 + y div 16)
        # b64_chr (y mod 16 * 4 + z div 64) # b64_chr (z mod 64) # b64encode rest)"
| "b64encode [a, b] =
     (let x = of_char a; y = of_char b in
        [b64_chr (x div 4), b64_chr (x mod 4 * 16 + y div 16), b64_chr (y mod 16 * 4), CHR ''=''])"
| "b64encode [a] =
     (let x = of_char a in [b64_chr (x div 4), b64_chr (x mod 4 * 16), CHR ''='', CHR ''=''])"
| "b64encode [] = []"

subsection \<open>\<open>str()\<close> of the salt\<close>

definition hex_digit :: "int \<Rightarrow> char" where
  "hex_digit n = ''0123456789abcdef'' ! nat n"

text \<open>
  \<open>repr\<close> of a bytes object: the quote is \<open>'\<close> unless the bytes hold a \<open>'\<close> and no
  \<open>"\<close>; the quote and the backslash are escaped, tab, newline and carriage return
  have their letters, every other octet outside the printable ASCII range is
  \<open>\xhh\<close>.
\<close>

definition repr_byte :: "char \<Rightarrow> char \<Rightarrow> string" where
  "repr_byte q c =
     (let n = (of_char c :: int) in
      if c = q \<or> c = CHR 0x5C then [CHR 0x5C, c]
      else if n = 9 then [CHR 0x5C, CHR ''t'']
      else if n = 10 then [CHR 0x5C, CHR ''n'']
      else if n = 13 then [CHR 0x5C, CHR ''r'']
      else if n < 32 \<or> 127 \<le> n then [CHR 0x5C, CHR ''x'', hex_digit (n div 16), hex_digit (n mod 16)]
      else [c])"

definition repr_bytes :: "bytes \<Rightarrow> string" where
  "repr_bytes b =
     (let q = (if CHR 0x27 \<in> set b \<and> CHR 0x22 \<notin> set b then CHR 0x22 else CHR 0x27)
      in [CHR ''b'', q] @ concat (map (repr_byte q) b) @ [q])"

text \<open>A value of the salt attribute: \<open>None\<close>, a \<open>str\<close> or a \<open>bytes\<close>.\<close>

datatype textval = Str pystr | Bytes bytes

fun py_str :: "textval option \<Rightarrow> pystr" where
  "py_str None = text_of ''None''"
| "py_str (Some (Str s)) = s"
| "py_str (Some (Bytes b)) = text_of (repr_bytes b)"

subsection \<open>\<open>base64.b64decode\<close>\<close>

text \<open>
  \<open>b64decode(s)\<close> with a \<open>str\<close> argument encodes it as ASCII (\<open>ValueError\<close> when it
  cannot) and calls \<open>binascii.a2b_base64\<close> in its lenient mode: a character outside
  the alphabet is skipped; \<open>=\<close> ends the input once the quad in progress is completed
  by the padding seen so far, and is skipped otherwise; input that ends inside a quad is
  an error.
\<close>

definition b64_val :: "int \<Rightarrow> int option" where
  "b64_val c =
     (if 65 \<le> c \<and> c \<le> 90 then Some (c - 65)
      else if 97 \<le> c \<and> c \<le> 122 then Some (c - 71)
      else if 48 \<le> c \<and> c \<le> 57 then Some (c + 4)
      else if c = 43 then Some 62
      else if c = 47 then Some 63
      else None)"

fun a2b_base64 :: "nat \<Rightarrow> nat \<Rightarrow> int \<Rightarrow> bytes \<Rightarrow> int list \<Rightarrow> error + bytes" where
  "a2b_base64 quad_pos pads leftchar out [] =
     (if quad_pos \<noteq> 0 then Inl BinasciiError else Inr (rev out))"
| "a2b_base64 quad_pos pads leftchar out (c # cs) =
     (if c = 61 then
        (if 2 \<le> quad_pos then
           (if 4 \<le> quad_pos + (pads + 1) then Inr (rev out)
            else a2b_base64 quad_pos (pads + 1) leftchar out cs)
         else a2b_base64 quad_pos pads leftchar out cs)
      else case b64_val c of
        None \<Rightarrow> a2b_base64 quad_pos pads leftchar out cs
      | Some v \<Rightarrow>
         (if quad_pos = 0 then a2b_base64 1 0 v out cs
          else if quad_pos = 1 then
            a2b_base64 2 0 (v mod 16) (char_of (leftchar * 4 + v div 16) # out) cs
          else if quad_pos = 2 then
            a2b_base64 3 0 (v mod 4) (char_of (leftchar * 16 + v div 4) # out) cs
          else a2b_base64 0 0 0 (char_of (leftchar * 64 + v) # out) cs))"

definition b64decode :: "pystr \<Rightarrow> error + bytes" where
  "b64decode s =
     (if \<exists>c \<in> set s. c < 0 \<or> 127 < c then Inl ValueError
      else a2b_base64 0 0 0 [] s)"

subsection \<open>\<open>hashlib.sha256\<close>\<close>

text \<open>
  SHA-256 as FIPS 180-4 defines it; the round constants and the initial state are
  written in decimal. A 32-bit word is an \<open>int\<close> in 0..2^32-1, with
  the wrap-around of the additions written out.
\<close>

definition add32 :: "int \<Rightarrow> int \<Rightarrow> int" where
  "add32 x y = (x + y) mod 2 ^ 32"

definition rotr :: "nat \<Rightarrow> int \<Rightarrow> int" where
  "rotr n x = x div 2 ^ n + (x mod 2 ^ n) * 2 ^ (32 - n)"

definition Ch :: "int \<Rightarrow> int \<Rightarrow> int \<Rightarrow> int" where
  "Ch x y z = xor (and x y) (and (4294967295 - x) z)"

definition Maj :: "int \<Rightarrow> int \<Rightarrow> int \<Rightarrow> int" where
  "Maj x y z = xor (xor (and x y) (and x z)) (and y z)"

definition bsig0 :: "int \<Rightarrow> int" where
  "bsig0 x = xor (xor (rotr 2 x) (rotr 13 x)) (rotr 22 x)"

definition bsig1 :: "int \<Rightarrow> int" where
  "bsig1 x = xor (xor (rotr 6 x) (rotr 11 x)) (rotr 25 x)"

definition ssig0 :: "int \<Rightarrow> int" where
  "ssig0 x = xor (xor (rotr 7 x) (rotr 18 x)) (x div 2 ^ 3)"

definition ssig1 :: "int \<Rightarrow> int" where
  "ssig1 x = xor (xor (rotr 17 x) (rotr 19 x)) (x div 2 ^ 10)"

definition K256 :: "int list" where
  "K256 =
    [1116352408, 1899447441, 3049323471, 3921009573, 961987163, 1508970993,
     2453635748, 2870763221, 3624381080, 310598401, 607225278, 1426881987,
     1925078388, 2162078206, 2614888103, 3248222580, 3835390401, 4022224774,
     264347078, 604807628, 770255983, 1249150122, 1555081692, 1996064986,
     2554220882, 2821834349, 2952996808, 3210313671, 3336571891, 3584528711,
     113926993, 338241895, 666307205, 773529912, 1294757372, 1396182291,
     1695183700, 1986661051, 2177026350, 2456956037, 2730485921, 2820302411,
     3259730800, 3345764771, 3516065817, 3600352804, 4094571909, 275423344,
     430227734, 506948616, 659060556, 883997877, 958139571, 1322822218,
     1537002063, 1747873779, 1955562222, 2024104815, 2227730452, 2361852424,
     2428436474, 2756734187, 3204031479, 3329325298]"

type_synonym hstate = "int \<times> int \<times> int \<times> int \<times> int \<times> int \<times> int \<times> int"

definition H0 :: hstate where
  "H0 = (1779033703, 3144134277, 1013904242, 2773480762,
         1359893119, 2600822924, 528734635, 1541459225)"

text \<open>The sixteen big-endian words of a block.\<close>

fun be32 :: "bytes \<Rightarrow> int list" where
  "be32 (a # b # c # d # rest) =
     (of_char a * 2 ^ 24 + of_char b * 2 ^ 16 + of_char c * 2 ^ 8 + of_char d) # be32 rest"
| "be32 _ = []"

text \<open>
  The message schedule, newest word first: \<open>ws = [W(t-1), W(t-2), ...]\<close>. One word is
  added for each element of the first argument.
\<close>

fun extend :: "'a list \<Rightarrow> int list \<Rightarrow> int list" where
  "extend [] ws = ws"
| "extend (_ # n) ws =
     extend n (add32 (add32 (ssig1 (ws ! 1)) (ws ! 6)) (add32 (ssig0 (ws ! 14)) (ws ! 15)) # ws)"

definition round_out :: "int \<Rightarrow> int \<Rightarrow> hstate \<Rightarrow> hstate" where
  "round_out t1 t2 s = (case s of (a, b, c, d, e, f, g, h) \<Rightarrow>
      (add32 t1 t2, a, b, c, add32 d t1, e, f, g))"

definition round_step :: "int \<Rightarrow> int \<Rightarrow> hstate \<Rightarrow> hstate" where
  "round_step k w s = (case s of (a, b, c, d, e, f, g, h) \<Rightarrow>
      round_out (add32 (add32 (add32 h (bsig1 e)) (add32 (Ch e f g) k)) w)
                (add32 (bsig0 a) (Maj a b c)) s)"

fun rounds :: "int list \<Rightarrow> int list \<Rightarrow> hstate \<Rightarrow> hstate" where
  "rounds (k # ks) (w # ws) s = rounds ks ws (round_step k w s)"
| "rounds _ _ s = s"

definition add_state :: "hstate \<Rightarrow> hstate \<Rightarrow> hstate" where
  "add_state s t =
     (case s of (a, b, c, d, e, f, g, h) \<Rightarrow>
      case t of (a', b', c', d', e', f', g', h') \<Rightarrow>
        (add32 a a', add32 b b', add32 c c', add32 d d',
         add32 e e', add32 f f', add32 g g', add32 h h'))"

definition compress :: "hstate \<Rightarrow> bytes \<Rightarrow> hstate" where
  "compress hs blk =
     add_state hs (rounds K256 (rev (extend (drop 16 K256) (rev (be32 blk)))) hs)"

function blocks :: "hstate \<Rightarrow> bytes \<Rightarrow> hstate" where
  "blocks hs bs =
     (if length bs < 64 then hs else blocks (compress hs (take 64 bs)) (drop 64 bs))"
  by pat_completeness auto
termination
  by (relation "measure (\<lambda>(hs, bs). length bs)") auto

declare blocks.simps [simp del]

definition len_bytes :: "int \<Rightarrow> bytes" where
  "len_bytes n = map (\<lambda>i. char_of (n div 2 ^ (8 * i))) [7, 6, 5, 4, 3, 2, 1, 0 :: nat]"

definition pad :: "bytes \<Rightarrow> bytes" where
  "pad m = m @ [char_of (0x80 :: int)]
             @ replicate ((119 - length m mod 64) mod 64) (char_of (0 :: int))
             @ len_bytes (8 * int (length m))"

definition word_bytes :: "int \<Rightarrow> bytes" where
  "word_bytes w =
     [char_of (w div 2 ^ 24), char_of (w div 2 ^ 16), char_of (w div 2 ^ 8), char_of w]"

definition sha256 :: "bytes \<Rightarrow> bytes" where
  "sha256 m = (case blocks H0 (pad m) of (a, b, c, d, e, f, g, h) \<Rightarrow>
     concat (map word_bytes [a, b, c, d, e, f, g, h]))"

text \<open>\<open>hexdigest()\<close>: two lowercase hexadecimal digits for each octet, as a \<open>str\<close>.\<close>

definition hex_byte :: "char \<Rightarrow> string" where
  "hex_byte c = [hex_digit (of_char c div 16), hex_digit (of_char c mod 16)]"

definition hexdigest :: "bytes \<Rightarrow> pystr" where
  "hexdigest m = text_of (concat (map hex_byte (sha256 m)))"

subsection \<open>The user and its credentials\<close>

text \<open>
  The attributes of \<open>User\<close> that the computed properties read or write: the primary
  key \<open>id\<close>, the columns \<open>_salt\<close> and \<open>_password\<close>, \<open>date_of_birth\<close> (a \<open>date\<close>, a
  \<open>datetime\<close> or \<open>None\<close>) and \<open>timezone\<close>.
\<close>

record date =
  year :: int
  month :: int
  day :: int

record datetime =
  dt_date :: date
  hour :: int
  minute :: int
  second :: int
  microsecond :: int

datatype birth = BirthDate date | BirthDateTime datetime

record user =
  user_id :: "int option"
  salt_col :: "textval option"
  password_col :: "pystr option"
  date_of_birth :: "birth option"
  timezone :: "int option"

text \<open>Python's truth value of \<open>self.id\<close> and of \<open>self._salt\<close>.\<close>

fun truthy_id :: "int option \<Rightarrow> bool" where
  "truthy_id None = False"
| "truthy_id (Some n) = (n \<noteq> 0)"

fun truthy_text :: "textval option \<Rightarrow> bool" where
  "truthy_text None = False"
| "truthy_text (Some (Str s)) = (s \<noteq> [])"
| "truthy_text (Some (Bytes b)) = (b \<noteq> [])"

text \<open>
  \<open>User.salt\<close>. The first argument is what \<open>os.urandom(8)\<close> returns if it is called.
  The getter assigns \<open>_salt\<close>, so it returns the user too. When \<open>.encode\<close> raises,
  the assignment of its result has not happened.
\<close>

definition salt :: "bytes \<Rightarrow> user \<Rightarrow> (error + textval option) \<times> user" where
  "salt urandom8 u =
     (let u1 = (if \<not> truthy_id (user_id u) \<and> \<not> truthy_text (salt_col u)
                then u\<lparr>salt_col := Some (Bytes (b64encode urandom8))\<rparr> else u)
      in case salt_col u1 of
           Some (Str s) \<Rightarrow>
             (case utf8_encode s of
                Inl e \<Rightarrow> (Inl e, u1)
              | Inr b \<Rightarrow> (Inr (Some (Bytes b)), u1\<lparr>salt_col := Some (Bytes b)\<rparr>))
         | v \<Rightarrow> (Inr v, u1))"

text \<open>\<open>User.__encrypt_password\<close>: the password is a \<open>str\<close> or already \<open>bytes\<close>.\<close>

definition encrypt_password :: "textval \<Rightarrow> bytes \<Rightarrow> error + pystr" where
  "encrypt_password password salt_bytes =
     (case (case password of Str s \<Rightarrow> utf8_encode s | Bytes b \<Rightarrow> Inr b) of
        Inl e \<Rightarrow> Inl e
      | Inr password_bytes \<Rightarrow> Inr (hexdigest (password_bytes @ salt_bytes)))"

text \<open>The second argument of both callers: \<open>b64decode(str(self.salt))\<close>.\<close>

definition decoded_salt :: "bytes \<Rightarrow> user \<Rightarrow> (error + bytes) \<times> user" where
  "decoded_salt urandom8 u =
     (case salt urandom8 u of
        (Inl e, u1) \<Rightarrow> (Inl e, u1)
      | (Inr s, u1) \<Rightarrow> (b64decode (py_str s), u1))"

text \<open>The setter of \<open>User.password\<close>.\<close>

definition set_password :: "bytes \<Rightarrow> textval \<Rightarrow> user \<Rightarrow> (error + unit) \<times> user" where
  "set_password urandom8 password u =
     (case decoded_salt urandom8 u of
        (Inl e, u1) \<Rightarrow> (Inl e, u1)
      | (Inr raw, u1) \<Rightarrow>
          (case encrypt_password password raw of
             Inl e \<Rightarrow> (Inl e, u1)
           | Inr h \<Rightarrow> (Inr (), u1\<lparr>password_col := Some h\<rparr>)))"

text \<open>
  \<open>User.validate_password\<close>. The left operand \<open>self.password\<close> is read before the right
  one is computed; reading the salt does not touch it.
\<close>

definition validate_password :: "bytes \<Rightarrow> textval \<Rightarrow> user \<Rightarrow> (error + bool) \<times> user" where
  "validate_password urandom8 password u =
     (case decoded_salt urandom8 u of
        (Inl e, u1) \<Rightarrow> (Inl e, u1)
      | (Inr raw, u1) \<Rightarrow>
          (case encrypt_password password raw of
             Inl e \<Rightarrow> (Inl e, u1)
           | Inr h \<Rightarrow> (Inr (password_col u = Some h), u1)))"

subsection \<open>Dates: \<open>datetime.date\<close>, \<open>datetime.timedelta\<close>, \<open>calendar.leapdays\<close>\<close>

text \<open>
  The proleptic Gregorian calendar of Python's \<open>datetime\<close> module: a date is a year in
  1..9999, a month and a day of that month, and its ordinal counts days from
  0001-01-01, which is day 1.
\<close>

definition is_leap :: "int \<Rightarrow> bool" where
  "is_leap y = (y mod 4 = 0 \<and> (y mod 100 \<noteq> 0 \<or> y mod 400 = 0))"

definition days_before_year :: "int \<Rightarrow> int" where
  "days_before_year y = (y - 1) * 365 + (y - 1) div 4 - (y - 1) div 100 + (y - 1) div 400"

definition month_lengths :: "int list" where
  "month_lengths = [31, 28, 31, 30, 31, 30, 31, 31, 30, 31, 30, 31]"

text \<open>The length of a month and the days before it, in a year that is leap or not.\<close>

definition month_length :: "bool \<Rightarrow> int \<Rightarrow> int" where
  "month_length leap m = (if m = 2 \<and> leap then 29 else month_lengths ! nat (m - 1))"

definition month_start :: "bool \<Rightarrow> int \<Rightarrow> int" where
  "month_start leap m = sum_list (take (nat (m - 1)) month_lengths) + (if 2 < m \<and> leap then 1 else 0)"

definition days_in_month :: "int \<Rightarrow> int \<Rightarrow> int" where
  "days_in_month y m = month_length (is_leap y) m"

definition days_before_month :: "int \<Rightarrow> int \<Rightarrow> int" where
  "days_before_month y m = month_start (is_leap y) m"

definition valid_date :: "date \<Rightarrow> bool" where
  "valid_date d = (1 \<le> year d \<and> year d \<le> 9999 \<and> 1 \<le> month d \<and> month d \<le> 12
     \<and> 1 \<le> day d \<and> day d \<le> days_in_month (year d) (month d))"

definition toordinal :: "date \<Rightarrow> int" where
  "toordinal d = days_before_year (year d) + days_before_month (year d) (month d) + day d"

definition max_ordinal :: int where
  "max_ordinal = 3652059"

text \<open>
  The month and the day of the \<open>n\<close>-th day of a year (\<open>n\<close> from 0): the estimate
  \<open>(n + 50) >> 5\<close> is the month or one more.
\<close>

definition month_day :: "bool \<Rightarrow> int \<Rightarrow> int \<times> int" where
  "month_day leapyear n =
     (let m = (n + 50) div 32; preceding = month_start leapyear m in
      if n < preceding then (m - 1, n - (preceding - month_length leapyear (m - 1)) + 1)
      else (m, n - preceding + 1))"

text \<open>\<open>date.fromordinal\<close>: cycles of 400, 100, 4 and 1 years.\<close>

definition fromordinal :: "int \<Rightarrow> date" where
  "fromordinal ordinal =
     (let n = ordinal - 1;
          n400 = n div 146097; n = n mod 146097;
          n100 = n div 36524; n = n mod 36524;
          n4 = n div 1461; n = n mod 1461;
          n1 = n div 365; n = n mod 365;
          y = n400 * 400 + 1 + n100 * 100 + n4 * 4 + n1
      in if n1 = 4 \<or> n100 = 4 then \<lparr>year = y - 1, month = 12, day = 31\<rparr>
         else (case month_day (n1 = 3 \<and> (n4 \<noteq> 24 \<or> n100 = 3)) n of
                 (m, d) \<Rightarrow> \<lparr>year = y, month = m, day = d\<rparr>))"

text \<open>
  \<open>(utcnow + timedelta(hours=h)).date()\<close>: whole hours move the date by the number of
  midnights crossed; a result before year 1 or after year 9999 is an \<open>OverflowError\<close>,
  as is an offset too large for a \<open>timedelta\<close>.
\<close>

definition date_plus_hours :: "datetime \<Rightarrow> int \<Rightarrow> error + date" where
  "date_plus_hours now h =
     (let seconds = hour now * 3600 + minute now * 60 + second now + h * 3600;
          ordinal = toordinal (dt_date now) + seconds div 86400
      in if 0 < ordinal \<and> ordinal \<le> max_ordinal then Inr (fromordinal ordinal)
         else Inl OverflowError)"

text \<open>\<open>calendar.leapdays(y1, y2)\<close>.\<close>

definition leapdays :: "int \<Rightarrow> int \<Rightarrow> int" where
  "leapdays y1 y2 =
     ((y2 - 1) div 4 - (y1 - 1) div 4) - ((y2 - 1) div 100 - (y1 - 1) div 100)
       + ((y2 - 1) div 400 - (y1 - 1) div 400)"

subsection \<open>True division of integers\<close>

text \<open>
  A number the age computation returns: an \<open>int\<close>, or a \<open>float\<close>. \<open>PyFloat m e\<close> is
  the IEEE 754 double \<open>m * 2^e\<close>, with \<open>2^52 \<le> |m| < 2^53\<close> unless it is zero.

  \<open>a / b\<close> on two integers is the double nearest to the quotient, ties to the even
  mantissa (CPython rounds the exact quotient once). The exponent range of a double is
  not modelled: the operands of the one division in \<open>age\<close> are below \<open>2^23\<close>.
\<close>

datatype pynum = PyInt int | PyFloat int int

function bit_length :: "int \<Rightarrow> nat" where
  "bit_length x = (if x \<le> 0 then 0 else Suc (bit_length (x div 2)))"
  by pat_completeness auto
termination
  by (relation "measure nat") auto

declare bit_length.simps [simp del]

definition round_half_even :: "int \<Rightarrow> int \<Rightarrow> int" where
  "round_half_even a b =
     (let q = a div b; r = a mod b in
      if 2 * r < b then q
      else if b < 2 * r then q + 1
      else if even q then q else q + 1)"

text \<open>The quotient \<open>x / y\<close> in units of \<open>2^e\<close>, rounded; and whether it reaches \<open>2^53\<close>.\<close>

definition scaled_quotient :: "int \<Rightarrow> int \<Rightarrow> int \<Rightarrow> int" where
  "scaled_quotient x y e =
     (if 0 \<le> e then round_half_even x (y * 2 ^ nat e)
      else round_half_even (x * 2 ^ nat (- e)) y)"

definition reaches_2_53 :: "int \<Rightarrow> int \<Rightarrow> int \<Rightarrow> bool" where
  "reaches_2_53 x y e =
     (if 0 \<le> e then y * 2 ^ nat e * 2 ^ 53 \<le> x
      else y * 2 ^ 53 \<le> x * 2 ^ nat (- e))"

definition true_divide :: "int \<Rightarrow> int \<Rightarrow> error + pynum" where
  "true_divide a b =
     (if b = 0 then Inl ZeroDivisionError
      else if a = 0 then Inr (PyFloat 0 0)
      else
        let x = \<bar>a\<bar>; y = \<bar>b\<bar>;
            e0 = int (bit_length x) - int (bit_length y) - 53;
            e = (if reaches_2_53 x y e0 then e0 + 1 else e0);
            m = scaled_quotient x y e
        in if m = 2 ^ 53 then Inr (PyFloat (sgn a * sgn b * 2 ^ 52) (e + 1))
           else Inr (PyFloat (sgn a * sgn b * m) e))"

text \<open>The real number that a Python number stands for.\<close>

definition num_value :: "pynum \<Rightarrow> real" where
  "num_value x =
     (case x of
        PyInt n \<Rightarrow> real_of_int n
      | PyFloat m e \<Rightarrow>
          (if 0 \<le> e then real_of_int (m * 2 ^ nat e) else real_of_int m / 2 ^ nat (- e)))"

subsection \<open>\<open>User.age\<close>\<close>

text \<open>
  The first argument is what \<open>datetime.utcnow()\<close> returns. A \<open>date\<close> or \<open>datetime\<close>
  is always true in a condition, so \<open>if self.date_of_birth\<close> tests for \<open>None\<close> and
  \<open>birthday or (today - timedelta(1))\<close> is \<open>birthday\<close>. \<open>timedelta(hours=None)\<close> is a
  \<open>TypeError\<close>. The result of \<open>/ 365\<close> is a \<open>float\<close>; the sentinel is the \<open>int\<close> -1.
\<close>

definition birthday_of :: "birth \<Rightarrow> date" where
  "birthday_of b = (case b of BirthDate d \<Rightarrow> d | BirthDateTime dt \<Rightarrow> dt_date dt)"

definition age :: "datetime \<Rightarrow> user \<Rightarrow> error + pynum" where
  "age utcnow u =
     (case date_of_birth u of
        None \<Rightarrow> Inr (PyInt (- 1))
      | Some b \<Rightarrow>
          (case timezone u of
             None \<Rightarrow> Inl TypeError
           | Some h \<Rightarrow>
               (case date_plus_hours utcnow h of
                  Inl e \<Rightarrow> Inl e
                | Inr today \<Rightarrow>
                    (let birthday = birthday_of b;
                         days = toordinal today - toordinal birthday
                     in true_divide (days - leapdays (year birthday) (year today)) 365))))"

subsection \<open>Auxiliary notions for the properties\<close>

text \<open>
  The salt as the octets the getter hands out: a \<open>str\<close> salt is read as its UTF-8
  encoding, which is what the getter stores in its place.
\<close>

fun salt_value :: "textval option \<Rightarrow> (error + bytes) option" where
  "salt_value None = None"
| "salt_value (Some (Str s)) = Some (utf8_encode s)"
| "salt_value (Some (Bytes b)) = Some (Inr b)"

text \<open>
  The \<open>i\<close>-th character of the Base64 alphabet is printed as itself by \<open>repr\<close>, is
  not the quote, and decodes to \<open>i\<close>.
\<close>

definition plain_b64 :: "int \<Rightarrow> bool" where
  "plain_b64 i = (let c = b64_chr i in
     repr_byte (CHR 0x27) c = [c] \<and> c \<noteq> CHR 0x27 \<and> b64_val (of_char c) = Some i)"

definition new_user :: user where
  "new_user = \<lparr>user_id = None, salt_col = None, password_col = None,
                date_of_birth = None, timezone = None\<rparr>"

definition stored_user :: user where
  "stored_user = \<lparr>user_id = Some 5, salt_col = None, password_col = None,
                   date_of_birth = None, timezone = None\<rparr>"

definition zero_salt_user :: user where
  "zero_salt_user = \<lparr>user_id = Some 7, salt_col = Some (Bytes ''AAAAAAAAAAA=''),
                      password_col = None, date_of_birth = None, timezone = None\<rparr>"

text \<open>Instants and users for the examples of the age computation.\<close>

definition noon_1_june_2025 :: datetime where
  "noon_1_june_2025 = \<lparr>dt_date = \<lparr>year = 2025, month = 6, day = 1\<rparr>,
                        hour = 12, minute = 0, second = 0, microsecond = 0\<rparr>"

definition born_1_june_2024 :: user where
  "born_1_june_2024 = \<lparr>user_id = Some 1, salt_col = None, password_col = None,
     date_of_birth = Some (BirthDate \<lparr>year = 2024, month = 6, day = 1\<rparr>), timezone = Some 0\<rparr>"

definition born_no_timezone :: user where
  "born_no_timezone = \<lparr>user_id = Some 1, salt_col = None, password_col = None,
     date_of_birth = Some (BirthDate \<lparr>year = 2000, month = 1, day = 1\<rparr>), timezone = None\<rparr>"

section \<open>Properties\<close>

subsection \<open>Base64 and the printed form of a generated salt\<close>

lemma of_char_int_range: "0 \<le> (of_char c :: int) \<and> (of_char c :: int) < 256"
proof -
  have "(of_char c :: int) = int (of_char c)" by (simp add: of_nat_of_char)
  moreover have "(of_char c :: nat) < 256" by simp
  ultimately show ?thesis by simp
qed

lemma plain_b64_all: "\<forall>i \<in> set [0..63]. plain_b64 i"
  by code_simp

lemma plain_b64: "0 \<le> i \<Longrightarrow> i < 64 \<Longrightarrow> plain_b64 i"
  using plain_b64_all by simp

lemma repr_bytes_plain:
  assumes "\<forall>c \<in> set bs. repr_byte (CHR 0x27) c = [c] \<and> c \<noteq> CHR 0x27"
  shows "repr_bytes bs = [CHR ''b'', CHR 0x27] @ bs @ [CHR 0x27]"
proof -
  have "concat (map (repr_byte (CHR 0x27)) bs) = bs"
    using assms by (induction bs) simp_all
  moreover have "CHR 0x27 \<notin> set bs" using assms by auto
  ultimately show ?thesis by (simp add: repr_bytes_def Let_def)
qed

lemma b64_val_range: "b64_val c = Some v \<Longrightarrow> c \<noteq> 61 \<and> 0 \<le> c \<and> c \<le> 127"
  by (auto simp: b64_val_def split: if_splits)

lemma a2b_quad:
  assumes "b64_val c1 = Some v1" "b64_val c2 = Some v2" "b64_val c3 = Some v3" "b64_val c4 = Some v4"
  shows "a2b_base64 0 p l out (c1 # c2 # c3 # c4 # cs) =
         a2b_base64 0 0 0 (char_of (v3 mod 4 * 64 + v4) # char_of (v2 mod 16 * 16 + v3 div 4)
                           # char_of (v1 * 4 + v2 div 16) # out) cs"
  using assms b64_val_range [OF assms(1)] b64_val_range [OF assms(2)]
    b64_val_range [OF assms(3)] b64_val_range [OF assms(4)]
  by simp

lemma a2b_tail: "a2b_base64 0 0 0 out [61, 39] = Inr (rev out)"
  by (simp add: b64_val_def)

lemma b64decode_generated:
  assumes "length r = 8"
  shows "\<exists>raw. b64decode (py_str (Some (Bytes (b64encode r)))) = Inr raw \<and> length raw = 9"
proof -
  from assms obtain a b c d e f g h where r: "r = [a, b, c, d, e, f, g, h]"
    by (auto simp: eval_nat_numeral length_Suc_conv)
  note rng = of_char_int_range [of a] of_char_int_range [of b] of_char_int_range [of c]
    of_char_int_range [of d] of_char_int_range [of e] of_char_int_range [of f]
    of_char_int_range [of g] of_char_int_range [of h]
  define i1 where "i1 = (of_char a :: int) div 4"
  define i2 where "i2 = (of_char a :: int) mod 4 * 16 + of_char b div 16"
  define i3 where "i3 = (of_char b :: int) mod 16 * 4 + of_char c div 64"
  define i4 where "i4 = (of_char c :: int) mod 64"
  define i5 where "i5 = (of_char d :: int) div 4"
  define i6 where "i6 = (of_char d :: int) mod 4 * 16 + of_char e div 16"
  define i7 where "i7 = (of_char e :: int) mod 16 * 4 + of_char f div 64"
  define i8 where "i8 = (of_char f :: int) mod 64"
  define i9 where "i9 = (of_char g :: int) div 4"
  define i10 where "i10 = (of_char g :: int) mod 4 * 16 + of_char h div 16"
  define i11 where "i11 = (of_char h :: int) mod 16 * 4"
  note idefs = i1_def i2_def i3_def i4_def i5_def i6_def i7_def i8_def i9_def i10_def i11_def
  have p: "plain_b64 i1" "plain_b64 i2" "plain_b64 i3" "plain_b64 i4" "plain_b64 i5"
    "plain_b64 i6" "plain_b64 i7" "plain_b64 i8" "plain_b64 i9" "plain_b64 i10" "plain_b64 i11"
    using rng unfolding idefs by (auto intro!: plain_b64)
  have enc: "b64encode r = [b64_chr i1, b64_chr i2, b64_chr i3, b64_chr i4, b64_chr i5, b64_chr i6,
      b64_chr i7, b64_chr i8, b64_chr i9, b64_chr i10, b64_chr i11, CHR ''='']"
    unfolding r idefs by (simp add: Let_def)
  have eq_plain: "repr_byte (CHR 0x27) (CHR ''='') = [CHR ''='']"
    by (simp add: repr_byte_def)
  have rp: "repr_bytes [b64_chr i1, b64_chr i2, b64_chr i3, b64_chr i4, b64_chr i5, b64_chr i6,
      b64_chr i7, b64_chr i8, b64_chr i9, b64_chr i10, b64_chr i11, CHR ''='']
    = [CHR ''b'', CHR 0x27] @ [b64_chr i1, b64_chr i2, b64_chr i3, b64_chr i4, b64_chr i5, b64_chr i6,
      b64_chr i7, b64_chr i8, b64_chr i9, b64_chr i10, b64_chr i11, CHR ''=''] @ [CHR 0x27]"
    using p eq_plain by (intro repr_bytes_plain) (simp add: plain_b64_def Let_def)
  have str_eq: "py_str (Some (Bytes (b64encode r))) =
      [98, 39, of_char (b64_chr i1), of_char (b64_chr i2), of_char (b64_chr i3),
       of_char (b64_chr i4), of_char (b64_chr i5), of_char (b64_chr i6), of_char (b64_chr i7),
       of_char (b64_chr i8), of_char (b64_chr i9), of_char (b64_chr i10), of_char (b64_chr i11),
       61, 39]"
    by (simp add: enc rp text_of_def)
  have v: "b64_val (of_char (b64_chr i1)) = Some i1" "b64_val (of_char (b64_chr i2)) = Some i2"
    "b64_val (of_char (b64_chr i3)) = Some i3" "b64_val (of_char (b64_chr i4)) = Some i4"
    "b64_val (of_char (b64_chr i5)) = Some i5" "b64_val (of_char (b64_chr i6)) = Some i6"
    "b64_val (of_char (b64_chr i7)) = Some i7" "b64_val (of_char (b64_chr i8)) = Some i8"
    "b64_val (of_char (b64_chr i9)) = Some i9" "b64_val (of_char (b64_chr i10)) = Some i10"
    "b64_val (of_char (b64_chr i11)) = Some i11"
    using p by (simp_all add: plain_b64_def Let_def)
  have b: "b64_val 98 = Some 27" by (simp add: b64_val_def)
  have q: "b64_val 39 = None" by (simp add: b64_val_def)
  have ascii: "\<not> (\<exists>c \<in> set (py_str (Some (Bytes (b64encode r)))). c < 0 \<or> 127 < c)"
    unfolding str_eq using v [THEN b64_val_range] by simp
  have "a2b_base64 0 0 0 [] (py_str (Some (Bytes (b64encode r)))) =
        a2b_base64 0 0 0 [] (98 # of_char (b64_chr i1) # of_char (b64_chr i2) # of_char (b64_chr i3)
          # of_char (b64_chr i4) # of_char (b64_chr i5) # of_char (b64_chr i6) # of_char (b64_chr i7)
          # of_char (b64_chr i8) # of_char (b64_chr i9) # of_char (b64_chr i10) # of_char (b64_chr i11)
          # [61, 39])"
    unfolding str_eq by (simp add: b q)
  also have "\<dots> = Inr (rev [char_of (i10 mod 4 * 64 + i11), char_of (i9 mod 16 * 16 + i10 div 4),
       char_of (i8 * 4 + i9 div 16), char_of (i6 mod 4 * 64 + i7), char_of (i5 mod 16 * 16 + i6 div 4),
       char_of (i4 * 4 + i5 div 16), char_of (i2 mod 4 * 64 + i3), char_of (i1 mod 16 * 16 + i2 div 4),
       char_of (27 * 4 + i1 div 16)])"
    by (simp only: a2b_quad [OF b v(1) v(2) v(3)] a2b_quad [OF v(4) v(5) v(6) v(7)]
        a2b_quad [OF v(8) v(9) v(10) v(11)] a2b_tail)
  finally show ?thesis using ascii by (simp add: b64decode_def)
qed

subsection \<open>The salt\<close>

lemma b64encode_8:
  "length r = 8 \<Longrightarrow> length (b64encode r) = 12 \<and> b64encode r \<noteq> []"
proof -
  assume "length r = 8"
  then obtain a b c d e f g h where "r = [a, b, c, d, e, f, g, h]"
    by (auto simp: eval_nat_numeral length_Suc_conv)
  then show ?thesis by (simp add: Let_def)
qed

lemma salt_unassigned:
  assumes "\<not> truthy_id (user_id u)" and "\<not> truthy_text (salt_col u)" and "b64encode r \<noteq> []"
  shows "salt r u = (Inr (Some (Bytes (b64encode r))), u\<lparr>salt_col := Some (Bytes (b64encode r))\<rparr>)"
  using assms by (simp add: salt_def)

lemma salt_assigned_bytes:
  assumes "salt_col u = Some (Bytes b)" and "b \<noteq> []"
  shows "salt r u = (Inr (Some (Bytes b)), u)"
  using assms by (simp add: salt_def)

text \<open>
  Claim C7 as stated fails for a user that has a primary key: the getter generates a
  salt only if \<open>not self.id and not self._salt\<close>. Such a user with no salt reads
  \<open>None\<close>, and nothing is stored.
\<close>

theorem salt_not_generated_for_stored_user:
  "salt (replicate 8 (CHR 0x00)) stored_user = (Inr None, stored_user)"
  by (simp add: salt_def stored_user_def)

text \<open>
  Claim C7, amended: for every user without a primary key (\<open>None\<close> or 0) and without a
  salt (\<open>None\<close> or empty), reading the salt stores the Base64 encoding (12 characters)
  of the 8 random octets and returns it; the user after that read is a fixed point of
  the getter, whatever the random source would give, so every later read returns the
  same salt.
\<close>

theorem salt_generated_once:
  assumes "\<not> truthy_id (user_id u)" and "\<not> truthy_text (salt_col u)" and "length r = 8"
  shows "salt r u = (Inr (Some (Bytes (b64encode r))), u\<lparr>salt_col := Some (Bytes (b64encode r))\<rparr>)
       \<and> length (b64encode r) = 12
       \<and> salt r' (snd (salt r u)) = (Inr (Some (Bytes (b64encode r))), snd (salt r u))"
proof -
  from assms(3) have ne: "b64encode r \<noteq> []" and len: "length (b64encode r) = 12"
    using b64encode_8 by blast+
  have first: "salt r u = (Inr (Some (Bytes (b64encode r))), u\<lparr>salt_col := Some (Bytes (b64encode r))\<rparr>)"
    using assms(1,2) ne by (rule salt_unassigned)
  have "salt r' (u\<lparr>salt_col := Some (Bytes (b64encode r))\<rparr>)
          = (Inr (Some (Bytes (b64encode r))), u\<lparr>salt_col := Some (Bytes (b64encode r))\<rparr>)"
    using ne by (intro salt_assigned_bytes) simp_all
  with first len show ?thesis by simp
qed

theorem salt_generated_once_witness:
  "\<not> truthy_id (user_id new_user) \<and> \<not> truthy_text (salt_col new_user)
   \<and> length (replicate 8 (CHR 0x00)) = 8
   \<and> salt (replicate 8 (CHR 0x00)) new_user
       = (Inr (Some (Bytes ''AAAAAAAAAAA='')), new_user\<lparr>salt_col := Some (Bytes ''AAAAAAAAAAA='')\<rparr>)
   \<and> salt ''12345678'' (new_user\<lparr>salt_col := Some (Bytes ''AAAAAAAAAAA='')\<rparr>)
       = (Inr (Some (Bytes ''AAAAAAAAAAA='')), new_user\<lparr>salt_col := Some (Bytes ''AAAAAAAAAAA='')\<rparr>)"
proof -
  have h1: "\<not> truthy_id (user_id new_user)" and h2: "\<not> truthy_text (salt_col new_user)"
    by (simp_all add: new_user_def)
  have h3: "length (replicate 8 (CHR 0x00)) = 8" by simp
  have enc: "b64encode (replicate 8 (CHR 0x00)) = ''AAAAAAAAAAA=''" by code_simp
  note w = salt_generated_once [OF h1 h2 h3, of "''12345678''", unfolded enc]
  have first: "salt (replicate 8 (CHR 0x00)) new_user
       = (Inr (Some (Bytes ''AAAAAAAAAAA='')), new_user\<lparr>salt_col := Some (Bytes ''AAAAAAAAAAA='')\<rparr>)"
    using w by (rule conjunct1)
  have again: "salt ''12345678'' (snd (salt (replicate 8 (CHR 0x00)) new_user))
       = (Inr (Some (Bytes ''AAAAAAAAAAA='')), snd (salt (replicate 8 (CHR 0x00)) new_user))"
    using w by blast
  from again have "salt ''12345678'' (new_user\<lparr>salt_col := Some (Bytes ''AAAAAAAAAAA='')\<rparr>)
       = (Inr (Some (Bytes ''AAAAAAAAAAA='')), new_user\<lparr>salt_col := Some (Bytes ''AAAAAAAAAAA='')\<rparr>)"
    unfolding first by (simp only: snd_conv)
  with first h1 h2 h3 show ?thesis by blast
qed

lemma salt_keeps:
  assumes "truthy_text (salt_col u)"
  shows "salt_value (salt_col (snd (salt r u))) = salt_value (salt_col u)"
    and "salt_col u = Some (Bytes b) \<Longrightarrow> salt_col (snd (salt r u)) = Some (Bytes b)"
  using assms by (auto simp: salt_def split: option.splits textval.splits sum.splits)

lemma decoded_salt_col: "salt_col (snd (decoded_salt r u)) = salt_col (snd (salt r u))"
  by (cases "salt r u") (auto simp: decoded_salt_def split: sum.splits)

lemma set_password_col: "salt_col (snd (set_password r p u)) = salt_col (snd (salt r u))"
  using decoded_salt_col [of r u]
  by (cases "decoded_salt r u") (auto simp: set_password_def split: sum.splits)

lemma validate_password_col: "salt_col (snd (validate_password r p u)) = salt_col (snd (salt r u))"
  using decoded_salt_col [of r u]
  by (cases "decoded_salt r u") (auto simp: validate_password_def split: sum.splits)

text \<open>
  Claim C8: once the salt is assigned (true in the getter's test), reading the salt,
  setting the password and validating a password leave its value as it was; a salt held
  as \<open>bytes\<close>, which is how the getter assigns it, is left exactly as it is, and a salt
  held as \<open>str\<close> keeps its text (the getter stores its UTF-8 octets in its place).
\<close>

theorem salt_never_changes:
  assumes "truthy_text (salt_col u)"
  shows "salt_value (salt_col (snd (salt r u))) = salt_value (salt_col u)
       \<and> salt_value (salt_col (snd (set_password r p u))) = salt_value (salt_col u)
       \<and> salt_value (salt_col (snd (validate_password r p u))) = salt_value (salt_col u)
       \<and> (\<forall>b. salt_col u = Some (Bytes b) \<longrightarrow>
             salt_col (snd (salt r u)) = Some (Bytes b)
           \<and> salt_col (snd (set_password r p u)) = Some (Bytes b)
           \<and> salt_col (snd (validate_password r p u)) = Some (Bytes b))"
  using salt_keeps [OF assms] by (simp add: set_password_col validate_password_col)

theorem salt_never_changes_witness:
  "truthy_text (salt_col zero_salt_user)
   \<and> salt_col (snd (salt ''12345678'' zero_salt_user)) = Some (Bytes ''AAAAAAAAAAA='')
   \<and> salt_col (snd (set_password ''12345678'' (Str (text_of ''secret'')) zero_salt_user))
       = Some (Bytes ''AAAAAAAAAAA='')
   \<and> salt_col (snd (validate_password ''12345678'' (Str (text_of ''secret'')) zero_salt_user))
       = Some (Bytes ''AAAAAAAAAAA='')"
proof -
  have h: "truthy_text (salt_col zero_salt_user)" by (simp add: zero_salt_user_def)
  have s: "salt_col zero_salt_user = Some (Bytes ''AAAAAAAAAAA='')" by (simp add: zero_salt_user_def)
  show ?thesis
    using salt_never_changes [OF h, of "''12345678''" "Str (text_of ''secret'')"] h s by simp
qed

subsection \<open>Validating a password\<close>



subsection \<open>Leap years and ordinals\<close>

lemma div_step:
  fixes y k :: int
  assumes "0 < k"
  shows "y div k - (y - 1) div k = (if y mod k = 0 then 1 else 0)"
proof (cases "y mod k = 0")
  case True
  then have "y = k * (y div k)" by auto
  then have "y - 1 = k * (y div k - 1) + (k - 1)" by (simp add: algebra_simps)
  then have "(y - 1) div k = y div k - 1"
    using assms by (intro int_div_pos_eq [where r = "k - 1"]) auto
  with True show ?thesis by simp
next
  case False
  have "0 \<le> y mod k" "y mod k < k" using assms by simp_all
  with False have "0 \<le> y mod k - 1" by simp
  have "y - 1 = k * (y div k) + (y mod k - 1)" by simp
  then have "(y - 1) div k = y div k"
    using \<open>0 \<le> y mod k - 1\<close> \<open>y mod k < k\<close>
    by (intro int_div_pos_eq [where r = "y mod k - 1"]) auto
  with False show ?thesis by simp
qed

lemma leap_cases:
  fixes y :: int
  shows "y mod 400 = 0 \<Longrightarrow> y mod 100 = 0" and "y mod 100 = 0 \<Longrightarrow> y mod 4 = 0"
proof -
  have a: "(100::int) dvd 400" and b: "(4::int) dvd 100" by simp_all
  show "y mod 400 = 0 \<Longrightarrow> y mod 100 = 0"
    using a by (meson dvd_trans mod_eq_0_iff_dvd)
  show "y mod 100 = 0 \<Longrightarrow> y mod 4 = 0"
    using b by (meson dvd_trans mod_eq_0_iff_dvd)
qed

lemma three_way_count:
  assumes "C \<longrightarrow> B" and "B \<longrightarrow> A"
  shows "(if A then 1 else 0) - (if B then 1 else 0) + (if C then 1 else 0)
       = (if A \<and> (\<not> B \<or> C) then 1 :: int else 0)"
  using assms by (cases A; cases B; cases C; simp)

lemma leap_count_step:
  fixes y :: int
  shows "(y div 4 - (y - 1) div 4) - (y div 100 - (y - 1) div 100) + (y div 400 - (y - 1) div 400)
       = (if is_leap y then 1 else 0)"
proof -
  have s4: "y div 4 - (y - 1) div 4 = (if y mod 4 = 0 then 1 else 0)"
    by (rule div_step) simp
  have s100: "y div 100 - (y - 1) div 100 = (if y mod 100 = 0 then 1 else 0)"
    by (rule div_step) simp
  have s400: "y div 400 - (y - 1) div 400 = (if y mod 400 = 0 then 1 else 0)"
    by (rule div_step) simp
  have "y mod 400 = 0 \<longrightarrow> y mod 100 = 0" and "y mod 100 = 0 \<longrightarrow> y mod 4 = 0"
    using leap_cases [of y] by blast+
  then show ?thesis
    unfolding s4 s100 s400 is_leap_def by (rule three_way_count)
qed

lemma leapdays_step: "leapdays y1 (y2 + 1) = leapdays y1 y2 + (if is_leap y2 then 1 else 0)"
proof -
  have "leapdays y1 (y2 + 1) - leapdays y1 y2
      = (y2 div 4 - (y2 - 1) div 4) - (y2 div 100 - (y2 - 1) div 100)
        + (y2 div 400 - (y2 - 1) div 400)"
    by (simp add: leapdays_def)
  also have "\<dots> = (if is_leap y2 then 1 else 0)" by (rule leap_count_step)
  finally show ?thesis by (simp only: diff_eq_eq add.commute)
qed

lemma leapdays_same: "leapdays y y = 0"
  by (simp add: leapdays_def)

lemma days_before_year_step:
  "days_before_year (y + 1) = days_before_year y + 365 + (if is_leap y then 1 else 0)"
proof -
  have "days_before_year (y + 1) - days_before_year y - 365
      = (y div 4 - (y - 1) div 4) - (y div 100 - (y - 1) div 100)
        + (y div 400 - (y - 1) div 400)"
    by (simp add: days_before_year_def algebra_simps)
  also have "\<dots> = (if is_leap y then 1 else 0)" by (rule leap_count_step)
  finally have "days_before_year (y + 1) - days_before_year y - 365 = (if is_leap y then 1 else 0)" .
  then show ?thesis by (simp only: diff_eq_eq add.commute add.left_commute)
qed

lemma days_before_year_mono: "y \<le> y' \<Longrightarrow> days_before_year y \<le> days_before_year y'"
proof (induction y' rule: int_ge_induct)
  case base
  show ?case by simp
next
  case (step i)
  then show ?case using days_before_year_step [of i] by (simp split: if_splits)
qed

lemma leapdays_count:
  assumes "y1 \<le> y2"
  shows "leapdays y1 y2 = int (card {y. y1 \<le> y \<and> y < y2 \<and> is_leap y})"
  using assms
proof (induction y2 rule: int_ge_induct)
  case base
  have e: "{y. y1 \<le> y \<and> y < y1 \<and> is_leap y} = {}" by auto
  show ?case unfolding leapdays_same e by simp
next
  case (step i)
  have fin: "finite {y. y1 \<le> y \<and> y < i \<and> is_leap y}"
    by (rule finite_subset [of _ "{y1..<i}"]) auto
  have split: "{y. y1 \<le> y \<and> y < i + 1 \<and> is_leap y}
      = (if is_leap i then insert i {y. y1 \<le> y \<and> y < i \<and> is_leap y}
         else {y. y1 \<le> y \<and> y < i \<and> is_leap y})"
    using step.hyps by (auto simp: less_le)
  show ?case
    unfolding leapdays_step split using step.IH fin by simp
qed

subsection \<open>Months and days of a year\<close>

lemma month_table:
  "\<forall>leap \<in> {True, False}. \<forall>m \<in> set [1..12].
     0 \<le> month_start leap m \<and> 1 \<le> month_length leap m
     \<and> month_start leap m + month_length leap m \<le> 365 + (if leap then 1 else 0)"
  by code_simp

lemma month_day_table:
  "\<forall>n \<in> set [0..364].
     (case month_day True n of (m, d) \<Rightarrow>
        1 \<le> m \<and> m \<le> 12 \<and> 1 \<le> d \<and> d \<le> month_length True m \<and> month_start True m + d = n + 1)
   \<and> (case month_day False n of (m, d) \<Rightarrow>
        1 \<le> m \<and> m \<le> 12 \<and> 1 \<le> d \<and> d \<le> month_length False m \<and> month_start False m + d = n + 1)"
  by code_simp

lemma month_bounds:
  assumes "1 \<le> m" and "m \<le> 12"
  shows "0 \<le> month_start leap m" and "1 \<le> month_length leap m"
    and "month_start leap m + month_length leap m \<le> 365 + (if leap then 1 else 0)"
  using month_table assms by (cases leap; simp)+

lemma month_day_correct:
  assumes "0 \<le> n" and "n \<le> 364" and "month_day leap n = (m, d)"
  shows "1 \<le> m \<and> m \<le> 12 \<and> 1 \<le> d \<and> d \<le> month_length leap m \<and> month_start leap m + d = n + 1"
proof -
  have n: "n \<in> set [0..364]" using assms(1,2) by simp
  from month_day_table n
  have both: "(case month_day True n of (m, d) \<Rightarrow>
        1 \<le> m \<and> m \<le> 12 \<and> 1 \<le> d \<and> d \<le> month_length True m \<and> month_start True m + d = n + 1)
   \<and> (case month_day False n of (m, d) \<Rightarrow>
        1 \<le> m \<and> m \<le> 12 \<and> 1 \<le> d \<and> d \<le> month_length False m \<and> month_start False m + d = n + 1)"
    by (rule bspec)
  have "case month_day leap n of (m, d) \<Rightarrow>
        1 \<le> m \<and> m \<le> 12 \<and> 1 \<le> d \<and> d \<le> month_length leap m \<and> month_start leap m + d = n + 1"
  proof (cases leap)
    case True
    with both show ?thesis by (simp only: simp_thms)
  next
    case False
    with both show ?thesis by (simp only: simp_thms)
  qed
  with assms(3) show ?thesis by simp
qed

lemma ordinal_in_year:
  assumes "valid_date d"
  shows "days_before_year (year d) < toordinal d"
    and "toordinal d \<le> days_before_year (year d + 1)"
proof -
  from assms have m: "1 \<le> month d" "month d \<le> 12" and dd: "1 \<le> day d"
    "day d \<le> month_length (is_leap (year d)) (month d)"
    by (simp_all add: valid_date_def days_in_month_def)
  note b = month_bounds [OF m, of "is_leap (year d)"]
  show "days_before_year (year d) < toordinal d"
    using b(1) dd(1) by (simp add: toordinal_def days_before_month_def)
  show "toordinal d \<le> days_before_year (year d + 1)"
    using b(3) dd(2) by (simp add: toordinal_def days_before_month_def days_before_year_step)
qed

lemma year_after_365_days:
  assumes "valid_date t" and "valid_date b" and "toordinal t = toordinal b + 365"
    and "\<not> is_leap (year b)"
  shows "year t = year b + 1"
proof (rule ccontr)
  assume ne: "year t \<noteq> year b + 1"
  note tb = ordinal_in_year [OF assms(1)] and bb = ordinal_in_year [OF assms(2)]
  have next_year: "days_before_year (year b + 1) = days_before_year (year b) + 365"
    using assms(4) by (simp add: days_before_year_step)
  consider "year t \<le> year b" | "year b + 2 \<le> year t" using ne by linarith
  then show False
  proof cases
    case 1
    then have "days_before_year (year t + 1) \<le> days_before_year (year b + 1)"
      by (intro days_before_year_mono) simp
    with tb(2) bb(1) assms(3) next_year show False by linarith
  next
    case 2
    then have "days_before_year (year b + 2) \<le> days_before_year (year t)"
      by (intro days_before_year_mono)
    moreover have "days_before_year (year b + 1) + 365 \<le> days_before_year (year b + 1 + 1)"
      unfolding days_before_year_step [of "year b + 1"] by simp
    then have "days_before_year (year b + 1) + 365 \<le> days_before_year (year b + 2)"
      by (simp add: add.commute)
    ultimately show False using tb(1) bb(2) assms(3) by linarith
  qed
qed

subsection \<open>\<open>date.fromordinal\<close> inverts \<open>date.toordinal\<close>\<close>

lemma cycle_divs:
  fixes a b c e :: int
  assumes "0 \<le> e" "e \<le> 3" "0 \<le> c" "c \<le> 24" "0 \<le> b" "b \<le> 3"
  shows "(400 * a + 100 * b + 4 * c + e) div 4 = 100 * a + 25 * b + c"
    and "(400 * a + 100 * b + 4 * c + e) div 100 = 4 * a + b"
    and "(400 * a + 100 * b + 4 * c + e) div 400 = a"
proof -
  show "(400 * a + 100 * b + 4 * c + e) div 4 = 100 * a + 25 * b + c"
    using assms by (intro int_div_pos_eq [where r = e]) simp_all
  show "(400 * a + 100 * b + 4 * c + e) div 100 = 4 * a + b"
    using assms by (intro int_div_pos_eq [where r = "4 * c + e"]) simp_all
  show "(400 * a + 100 * b + 4 * c + e) div 400 = a"
    using assms by (intro int_div_pos_eq [where r = "100 * b + 4 * c + e"]) simp_all
qed

lemma cycle_mods:
  fixes a b c e :: int
  assumes "0 \<le> e" "e \<le> 3" "0 \<le> c" "c \<le> 24" "0 \<le> b" "b \<le> 3"
  shows "(400 * a + 100 * b + 4 * c + e) mod 4 = e"
    and "(400 * a + 100 * b + 4 * c + e) mod 100 = 4 * c + e"
    and "(400 * a + 100 * b + 4 * c + e) mod 400 = 100 * b + 4 * c + e"
proof -
  show "(400 * a + 100 * b + 4 * c + e) mod 4 = e"
    using assms by (intro int_mod_pos_eq [where q = "100 * a + 25 * b + c"]) simp_all
  show "(400 * a + 100 * b + 4 * c + e) mod 100 = 4 * c + e"
    using assms by (intro int_mod_pos_eq [where q = "4 * a + b"]) simp_all
  show "(400 * a + 100 * b + 4 * c + e) mod 400 = 100 * b + 4 * c + e"
    using assms by (intro int_mod_pos_eq [where q = a]) simp_all
qed

lemma days_before_year_cycles:
  fixes a b c e :: int
  assumes "0 \<le> e" "e \<le> 3" "0 \<le> c" "c \<le> 24" "0 \<le> b" "b \<le> 3"
  shows "days_before_year (400 * a + 100 * b + 4 * c + e + 1)
       = 146097 * a + 36524 * b + 1461 * c + 365 * e"
  by (simp add: days_before_year_def cycle_divs [OF assms])

lemma is_leap_cycles:
  fixes a b c e :: int
  assumes "0 \<le> e" "e \<le> 3" "0 \<le> c" "c \<le> 24" "0 \<le> b" "b \<le> 3"
  shows "is_leap (400 * a + 100 * b + 4 * c + e) \<longleftrightarrow> e = 0 \<and> (c \<noteq> 0 \<or> b = 0)"
  using assms unfolding is_leap_def cycle_mods [OF assms] by auto

lemma is_leap_next:
  fixes a b c e :: int
  assumes "0 \<le> e" "e \<le> 3" "0 \<le> c" "c \<le> 24" "0 \<le> b" "b \<le> 3"
  shows "is_leap (400 * a + 100 * b + 4 * c + e + 1) \<longleftrightarrow> e = 3 \<and> (c \<noteq> 24 \<or> b = 3)"
proof -
  consider "e \<le> 2" | "e = 3" "c \<le> 23" | "e = 3" "c = 24" "b \<le> 2" | "e = 3" "c = 24" "b = 3"
    using assms by linarith
  then show ?thesis
  proof cases
    case 1
    have eq: "400 * a + 100 * b + 4 * c + e + 1 = 400 * a + 100 * b + 4 * c + (e + 1)" by simp
    have L: "is_leap (400 * a + 100 * b + 4 * c + (e + 1)) \<longleftrightarrow> e + 1 = 0 \<and> (c \<noteq> 0 \<or> b = 0)"
      using assms 1 by (intro is_leap_cycles) simp_all
    show ?thesis unfolding eq L using assms 1 by simp
  next
    case 2
    have eq: "400 * a + 100 * b + 4 * c + e + 1 = 400 * a + 100 * b + 4 * (c + 1) + 0" using 2 by simp
    have L: "is_leap (400 * a + 100 * b + 4 * (c + 1) + 0) \<longleftrightarrow> (0::int) = 0 \<and> (c + 1 \<noteq> 0 \<or> b = 0)"
      using assms 2 by (intro is_leap_cycles) simp_all
    show ?thesis unfolding eq L using assms 2 by simp
  next
    case 3
    have eq: "400 * a + 100 * b + 4 * c + e + 1 = 400 * a + 100 * (b + 1) + 4 * 0 + 0" using 3 by simp
    have L: "is_leap (400 * a + 100 * (b + 1) + 4 * 0 + 0) \<longleftrightarrow> (0::int) = 0 \<and> ((0::int) \<noteq> 0 \<or> b + 1 = 0)"
      using assms 3 by (intro is_leap_cycles) simp_all
    show ?thesis unfolding eq L using assms 3 by simp
  next
    case 4
    have eq: "400 * a + 100 * b + 4 * c + e + 1 = 400 * (a + 1) + 100 * 0 + 4 * 0 + 0" using 4 by simp
    have L: "is_leap (400 * (a + 1) + 100 * 0 + 4 * 0 + 0) \<longleftrightarrow> (0::int) = 0 \<and> ((0::int) \<noteq> 0 \<or> (0::int) = 0)"
      by (intro is_leap_cycles) simp_all
    show ?thesis unfolding eq L using 4 by simp
  qed
qed

lemma last_day_of_year:
  assumes "is_leap y"
  shows "toordinal \<lparr>year = y, month = 12, day = 31\<rparr> = days_before_year (y + 1)"
    and "day \<lparr>year = y, month = 12, day = 31\<rparr> \<le> days_in_month y 12"
proof -
  have "month_start True 12 = 335" "month_length True 12 = 31" by code_simp+
  then show "toordinal \<lparr>year = y, month = 12, day = 31\<rparr> = days_before_year (y + 1)"
    and "day \<lparr>year = y, month = 12, day = 31\<rparr> \<le> days_in_month y 12"
    using assms
    by (simp_all add: toordinal_def days_before_month_def days_in_month_def days_before_year_step)
qed

lemma fromordinal_correct:
  assumes "1 \<le> n" and "n \<le> max_ordinal"
  shows "valid_date (fromordinal n) \<and> toordinal (fromordinal n) = n"
proof -
  define n0 where "n0 = n - 1"
  define a where "a = n0 div 146097"
  define r where "r = n0 mod 146097"
  define b where "b = r div 36524"
  define r2 where "r2 = r mod 36524"
  define c where "c = r2 div 1461"
  define r3 where "r3 = r2 mod 1461"
  define e where "e = r3 div 365"
  define r4 where "r4 = r3 mod 365"
  note defs = n0_def a_def r_def b_def r2_def c_def r3_def e_def r4_def
  have fo: "fromordinal n =
      (if e = 4 \<or> b = 4 then \<lparr>year = a * 400 + 1 + b * 100 + c * 4 + e - 1, month = 12, day = 31\<rparr>
       else (case month_day (e = 3 \<and> (c \<noteq> 24 \<or> b = 3)) r4 of
               (m, d) \<Rightarrow> \<lparr>year = a * 400 + 1 + b * 100 + c * 4 + e, month = m, day = d\<rparr>))"
    by (simp only: fromordinal_def Let_def defs)
  have n0: "0 \<le> n0" "n0 \<le> 3652058" "n = n0 + 1"
    using assms by (simp_all add: n0_def max_ordinal_def)
  have d1: "n0 = 146097 * a + r" "0 \<le> r" "r < 146097" unfolding a_def r_def by simp_all
  have d2: "r = 36524 * b + r2" "0 \<le> r2" "r2 < 36524" unfolding b_def r2_def by simp_all
  have d3: "r2 = 1461 * c + r3" "0 \<le> r3" "r3 < 1461" unfolding c_def r3_def by simp_all
  have d4: "r3 = 365 * e + r4" "0 \<le> r4" "r4 < 365" unfolding e_def r4_def by simp_all
  have ra: "0 \<le> a" "a \<le> 24" using n0 d1 by linarith+
  have rb: "0 \<le> b" "b \<le> 4" using d1 d2 by linarith+
  have rc: "0 \<le> c" "c \<le> 24" using d2 d3 by linarith+
  have re: "0 \<le> e" "e \<le> 4" using d3 d4 by linarith+
  have total: "n0 = 146097 * a + 36524 * b + 1461 * c + 365 * e + r4"
    using d1 d2 d3 d4 by linarith
  consider (century) "b = 4" | (fourth) "b \<le> 3" "e = 4" | (plain) "b \<le> 3" "e \<le> 3"
    using rb re by linarith
  then show ?thesis
  proof cases
    case century
    then have z: "c = 0" "e = 0" "r4 = 0" using d1 d2 d3 d4 rc re by linarith+
    have fo': "fromordinal n = \<lparr>year = 400 * (a + 1), month = 12, day = 31\<rparr>"
      unfolding fo using century z by simp
    have y: "400 * (a + 1) = 400 * (a + 1) + 100 * 0 + 4 * 0 + 0" by simp
    have leap: "is_leap (400 * (a + 1))"
      using is_leap_cycles [of 0 0 0 "a + 1"] by simp
    have "days_before_year (400 * (a + 1) + 1) = 146097 * (a + 1)"
      using days_before_year_cycles [of 0 0 0 "a + 1"] by simp
    then have ord: "toordinal \<lparr>year = 400 * (a + 1), month = 12, day = 31\<rparr> = n"
      using last_day_of_year(1) [OF leap] total century z n0(3) by simp
    have "a \<le> 23" using century total n0 ra rc re d4 by linarith
    then have "valid_date \<lparr>year = 400 * (a + 1), month = 12, day = 31\<rparr>"
      using last_day_of_year(2) [OF leap] ra by (simp add: valid_date_def)
    with ord show ?thesis unfolding fo' by simp
  next
    case fourth
    then have z: "r4 = 0" "c \<le> 23" using d2 d3 d4 rc by linarith+
    have fo': "fromordinal n = \<lparr>year = 400 * a + 100 * b + 4 * (c + 1) + 0, month = 12, day = 31\<rparr>"
      unfolding fo using fourth by simp
    have leap: "is_leap (400 * a + 100 * b + 4 * (c + 1) + 0)"
      using is_leap_cycles [of 0 "c + 1" b a] rb rc fourth z by simp
    have "days_before_year (400 * a + 100 * b + 4 * (c + 1) + 0 + 1)
        = 146097 * a + 36524 * b + 1461 * (c + 1) + 365 * 0"
      using rb rc fourth z by (intro days_before_year_cycles) simp_all
    then have ord: "toordinal \<lparr>year = 400 * a + 100 * b + 4 * (c + 1) + 0, month = 12, day = 31\<rparr> = n"
      using last_day_of_year(1) [OF leap] total fourth z n0(3) by simp
    have "400 * a + 100 * b + 4 * (c + 1) + 0 \<le> 9999"
      using ra(2) fourth(1) z(2) by simp
    then have "valid_date \<lparr>year = 400 * a + 100 * b + 4 * (c + 1) + 0, month = 12, day = 31\<rparr>"
      using last_day_of_year(2) [OF leap] ra rb rc by (simp add: valid_date_def)
    with ord show ?thesis unfolding fo' by simp
  next
    case plain
    define y where "y = 400 * a + 100 * b + 4 * c + e + 1"
    obtain m d where md: "month_day (e = 3 \<and> (c \<noteq> 24 \<or> b = 3)) r4 = (m, d)"
      by (cases "month_day (e = 3 \<and> (c \<noteq> 24 \<or> b = 3)) r4")
    have fo': "fromordinal n = \<lparr>year = y, month = m, day = d\<rparr>"
      unfolding fo y_def using plain md re by simp
    have leap: "is_leap y \<longleftrightarrow> e = 3 \<and> (c \<noteq> 24 \<or> b = 3)"
      unfolding y_def using re rc rb plain by (intro is_leap_next) simp_all
    have dby: "days_before_year y = 146097 * a + 36524 * b + 1461 * c + 365 * e"
      unfolding y_def using re rc rb plain by (intro days_before_year_cycles) simp_all
    have "r4 \<le> 364" using d4 by simp
    from month_day_correct [OF d4(2) this md]
    have mdc: "1 \<le> m" "m \<le> 12" "1 \<le> d" "d \<le> month_length (is_leap y) m"
      "month_start (is_leap y) m + d = r4 + 1"
      unfolding leap by simp_all
    have ord: "toordinal \<lparr>year = y, month = m, day = d\<rparr> = n"
      using mdc(5) dby total n0(3) by (simp add: toordinal_def days_before_month_def)
    have "y \<le> 9999"
    proof (rule ccontr)
      assume "\<not> y \<le> 9999"
      then have "10000 \<le> y" by simp
      then have "days_before_year 10000 \<le> days_before_year y" by (rule days_before_year_mono)
      moreover have "days_before_year 10000 = 3652059" by (simp add: days_before_year_def)
      ultimately show False using dby total n0 d4 by linarith
    qed
    moreover have "1 \<le> y" unfolding y_def using ra rb rc re by linarith
    ultimately have "valid_date \<lparr>year = y, month = m, day = d\<rparr>"
      using mdc by (simp add: valid_date_def days_in_month_def)
    with ord show ?thesis unfolding fo' by simp
  qed
qed

subsection \<open>\<open>User.age\<close>\<close>

lemma date_plus_hours_valid:
  assumes "date_plus_hours now h = Inr today"
  shows "valid_date today"
    and "toordinal today = toordinal (dt_date now)
           + (hour now * 3600 + minute now * 60 + second now + h * 3600) div 86400"
proof -
  define k where "k = toordinal (dt_date now)
           + (hour now * 3600 + minute now * 60 + second now + h * 3600) div 86400"
  from assms have rng: "1 \<le> k" "k \<le> max_ordinal" and t: "today = fromordinal k"
    unfolding date_plus_hours_def Let_def k_def by (auto split: if_splits)
  from fromordinal_correct [OF rng] show "valid_date today"
    and "toordinal today = toordinal (dt_date now)
           + (hour now * 3600 + minute now * 60 + second now + h * 3600) div 86400"
    unfolding t k_def by simp_all
qed

lemma age_sentinel: "date_of_birth u = None \<Longrightarrow> age now u = Inr (PyInt (- 1))"
  by (simp add: age_def)

lemma age_without_timezone:
  "date_of_birth u = Some b \<Longrightarrow> timezone u = None \<Longrightarrow> age now u = Inl TypeError"
  by (simp add: age_def)

lemma age_quotient:
  assumes "date_of_birth u = Some b" and "timezone u = Some h"
    and "date_plus_hours now h = Inr today"
  shows "age now u = true_divide (toordinal today - toordinal (birthday_of b)
                                   - leapdays (year (birthday_of b)) (year today)) 365"
  using assms by (simp add: age_def Let_def)

text \<open>
  Claim C9 (the age computation never raises; an absent birth date gives -1). The sentinel
  is as claimed (\<open>age_sentinel\<close>), but the computation does raise: \<open>timezone\<close> is a
  nullable column without a default, the getter tests \<open>date_of_birth\<close> and not
  \<open>timezone\<close>, and for a user with a birth date and no timezone
  \<open>timedelta(hours=None)\<close> raises \<open>TypeError\<close>. The query-side expression of the same
  property does not read the timezone.
\<close>

theorem age_type_error_without_timezone:
  "age noon_1_june_2025 born_no_timezone = Inl TypeError"
  by (simp add: age_def born_no_timezone_def)

text \<open>
  Claim C6 (the age is the floor of (days minus leap days) / 365, and is 1 when the
  birthday is 365 days before today with no leap day crossed). The code fails it on a
  first birthday: a user born on 2024-06-01, seen at noon UTC on 2025-06-01 with offset
  0, is 365 days old and has crossed no 29 February (the one of 2024 is before the birth
  date), yet \<open>calendar.leapdays(2024, 2025)\<close> is 1 and the result is the float
  0.9972602739726028, the double nearest to 364/365: neither floored nor 1.
\<close>

theorem age_364_days_counted_for_365:
  "toordinal \<lparr>year = 2025, month = 6, day = 1\<rparr> - toordinal \<lparr>year = 2024, month = 6, day = 1\<rparr> = 365
   \<and> toordinal \<lparr>year = 2024, month = 2, day = 29\<rparr> < toordinal \<lparr>year = 2024, month = 6, day = 1\<rparr>
   \<and> leapdays 2024 2025 = 1
   \<and> age noon_1_june_2025 born_1_june_2024 = Inr (PyFloat 8982521996508825 (- 53))
   \<and> num_value (PyFloat 8982521996508825 (- 53)) < 1
   \<and> 0 < num_value (PyFloat 8982521996508825 (- 53))"
proof -
  have t: "toordinal \<lparr>year = 2025, month = 6, day = 1\<rparr> = 739403" by code_simp
  have b: "toordinal \<lparr>year = 2024, month = 6, day = 1\<rparr> = 739038" by code_simp
  have f: "toordinal \<lparr>year = 2024, month = 2, day = 29\<rparr> = 738945" by code_simp
  have l: "leapdays 2024 2025 = 1" by code_simp
  have a: "age noon_1_june_2025 born_1_june_2024 = Inr (PyFloat 8982521996508825 (- 53))"
    by code_simp
  have v: "num_value (PyFloat 8982521996508825 (- 53)) < 1"
    "0 < num_value (PyFloat 8982521996508825 (- 53))"
    by (simp_all add: num_value_def)
  show ?thesis using t b f l a v by simp
qed

end
